theory Spec2Isabelle
  imports Main "HOL-Library.Word"
begin

section \<open>Python strings\<close>

text \<open>
  A Python \<^verbatim>\<open>str\<close> is a sequence of Unicode code points, so it is modelled as a list of
  natural numbers. \<open>py\<close> turns an ASCII literal into such a list.
\<close>

type_synonym pystr = "nat list"

definition py :: "string \<Rightarrow> pystr" where
  "py s = map of_char s"

text \<open>The code points for which \<^verbatim>\<open>str.isspace\<close> holds: what \<^verbatim>\<open>str.strip()\<close> removes.\<close>

definition is_space :: "nat \<Rightarrow> bool" where
  "is_space c =
     ((9 \<le> c \<and> c \<le> 13) \<or> (28 \<le> c \<and> c \<le> 32) \<or> c = 133 \<or> c = 160 \<or> c = 5760 \<or>
      (8192 \<le> c \<and> c \<le> 8202) \<or> c = 8232 \<or> c = 8233 \<or> c = 8239 \<or> c = 8287 \<or> c = 12288)"

definition strip :: "pystr \<Rightarrow> pystr" where
  "strip s = rev (dropWhile is_space (rev (dropWhile is_space s)))"

definition startswith :: "pystr \<Rightarrow> pystr \<Rightarrow> bool" where
  "startswith s p = (take (length p) s = p)"

text \<open>\<^verbatim>\<open>s.split(sep)\<close> for a separator of one character; \<open>cur\<close> is the piece being read.\<close>

fun split_on :: "nat \<Rightarrow> pystr \<Rightarrow> pystr \<Rightarrow> pystr list" where
  "split_on sep cur [] = [cur]"
| "split_on sep cur (c # cs) =
     (if c = sep then cur # split_on sep [] cs else split_on sep (cur @ [c]) cs)"

section \<open>Rich-text tokenizer: \<^verbatim>\<open>make_rich\<close>\<close>

text \<open>
  \<^verbatim>\<open>[a-zA-Z0-9]\<close>, and \<^verbatim>\<open>re.split("(#[a-zA-Z0-9]+)", line)\<close>: the pieces between the matches
  and, because of the capturing group, the matches themselves, in order. A match is a
  \<^verbatim>\<open>#\<close> (code point 35) and the longest run of alphanumerics after it, which must not be
  empty; \<open>seg\<close> is the piece being read.
\<close>

definition is_alnum :: "nat \<Rightarrow> bool" where
  "is_alnum c = ((48 \<le> c \<and> c \<le> 57) \<or> (65 \<le> c \<and> c \<le> 90) \<or> (97 \<le> c \<and> c \<le> 122))"

function re_split_tags :: "pystr \<Rightarrow> pystr \<Rightarrow> pystr list" where
  "re_split_tags seg [] = [seg]"
| "re_split_tags seg (c # cs) =
     (if c = 35 \<and> takeWhile is_alnum cs \<noteq> []
      then seg # (c # takeWhile is_alnum cs) # re_split_tags [] (dropWhile is_alnum cs)
      else re_split_tags (seg @ [c]) cs)"
  by pat_completeness auto
termination
  by (relation "measure (\<lambda>(seg, s). length s)")
     (auto simp: less_Suc_eq_le length_dropWhile_le)

text \<open>
  The \<^verbatim>\<open>TextBuilder\<close> of the client library collects the runs of a post in order: plain
  text, a link (display text, target) and a tag (display text, tag value).
\<close>

datatype run = PlainText pystr | Link pystr pystr | Hashtag pystr pystr

type_synonym text_builder = "run list"

definition tb_text :: "text_builder \<Rightarrow> pystr \<Rightarrow> text_builder" where
  "tb_text tb t = tb @ [PlainText t]"

definition tb_link :: "text_builder \<Rightarrow> pystr \<Rightarrow> pystr \<Rightarrow> text_builder" where
  "tb_link tb t url = tb @ [Link t url]"

definition tb_tag :: "text_builder \<Rightarrow> pystr \<Rightarrow> pystr \<Rightarrow> text_builder" where
  "tb_tag tb t tag = tb @ [Hashtag t tag]"

fun run_text :: "run \<Rightarrow> pystr" where
  "run_text (PlainText t) = t"
| "run_text (Link t url) = t"
| "run_text (Hashtag t tag) = t"

definition build_text :: "text_builder \<Rightarrow> pystr" where
  "build_text tb = concat (map run_text tb)"

text \<open>
  The body of the inner loop of \<^verbatim>\<open>make_rich\<close>, for the segment \<open>t0\<close> at index \<open>i\<close> of a
  split of \<open>n\<close> segments.
\<close>

definition add_segment :: "nat \<Rightarrow> text_builder \<Rightarrow> nat \<times> pystr \<Rightarrow> text_builder" where
  "add_segment n tb = (\<lambda>(i, t0).
     let t = (if i = n - 1 then t0 @ [10] else t0)
     in if startswith t (py ''#'') then tb_tag tb t (strip (drop 1 t)) else tb_text tb t)"

text \<open>The body of the outer loop, for one line.\<close>

definition add_line :: "text_builder \<Rightarrow> pystr \<Rightarrow> text_builder" where
  "add_line tb line =
     (if startswith line (py ''http'')
      then (let url = strip line in tb_link tb url url)
      else (let tag_split = re_split_tags [] line
            in foldl (add_segment (length tag_split)) tb (enumerate 0 tag_split)))"

definition make_rich :: "pystr \<Rightarrow> text_builder" where
  "make_rich content = foldl add_line [] (split_on 10 [] content)"

text \<open>
  The run one pass of the inner loop appends (\<open>add_segment n tb p = tb @ [segment_run n p]\<close>,
  lemma \<open>add_segment_run\<close>), the runs of one line, and the shape of a match of the
  hashtag pattern.
\<close>

definition segment_run :: "nat \<Rightarrow> nat \<times> pystr \<Rightarrow> run" where
  "segment_run n = (\<lambda>(i, t0).
     let t = (if i = n - 1 then t0 @ [10] else t0)
     in if startswith t (py ''#'') then Hashtag t (strip (drop 1 t)) else PlainText t)"

definition line_runs :: "pystr \<Rightarrow> run list" where
  "line_runs line = add_line [] line"

definition is_tag_match :: "pystr \<Rightarrow> bool" where
  "is_tag_match m = (case m of [] \<Rightarrow> False | c # cs \<Rightarrow> c = 35 \<and> cs \<noteq> [] \<and> list_all is_alnum cs)"

section \<open>Exceptions and the data of the collaborators\<close>

text \<open>
  The exceptions the program can meet, all of them subclasses of \<^verbatim>\<open>Exception\<close>.
  \<^verbatim>\<open>UnicodeEncodeError\<close>, \<^verbatim>\<open>UnicodeDecodeError\<close> and the \<^verbatim>\<open>ValidationError\<close> of the client
  library's models are subclasses of \<^verbatim>\<open>ValueError\<close>, so \<^verbatim>\<open>except ValueError\<close> catches them too.
\<close>

datatype exn = ValueError | UnicodeEncodeError | UnicodeDecodeError | ValidationError
  | IndexError | HTTPStatusError | ParserError | OtherException

fun is_ValueError :: "exn \<Rightarrow> bool" where
  "is_ValueError ValueError = True"
| "is_ValueError UnicodeEncodeError = True"
| "is_ValueError UnicodeDecodeError = True"
| "is_ValueError ValidationError = True"
| "is_ValueError _ = False"

type_synonym byte = "8 word"

text \<open>An instant, in microseconds since the epoch; \<^verbatim>\<open>arrow.get(0)\<close> is \<open>0\<close>.\<close>

type_synonym timestamp = int

record response =
  status_code :: nat
  resp_text :: pystr
  resp_content :: "byte list"

text \<open>A tag found by \<^verbatim>\<open>soup.find\<close>: its \<^verbatim>\<open>content\<close> attribute, if it has one, and its text.\<close>

record tag =
  attr_content :: "pystr option"
  tag_text :: pystr

text \<open>The six lookups \<^verbatim>\<open>fetch_link_metadata\<close> makes in a parsed page.\<close>

record soup =
  og_title :: "tag option"
  title_tag :: "tag option"
  og_description :: "tag option"
  name_description :: "tag option"
  og_image :: "tag option"
  twitter_image :: "tag option"

text \<open>An item of the author feed: \<^verbatim>\<open>titem.reason\<close>, \<^verbatim>\<open>titem.post.record.reply\<close> (absent or
  \<^verbatim>\<open>None\<close> is \<open>None\<close>) and \<^verbatim>\<open>titem.post.record.created_at\<close>.\<close>

record titem =
  reason :: "pystr option"
  reply :: "pystr option"
  created_at :: pystr

record entry =
  title :: pystr
  link :: pystr
  published :: pystr

datatype blob = BlobRef "byte list"

record image =
  alt :: pystr
  image_blob :: blob

text \<open>\<^verbatim>\<open>AppBskyEmbedImages.Main(images)\<close> and
  \<^verbatim>\<open>AppBskyEmbedExternal.Main(External(uri, title, description, thumb))\<close>.\<close>

datatype embed = EmbedImages "image list" | EmbedExternal pystr pystr pystr "blob option"

text \<open>The best match of the charset detection; \<open>match_text\<close> is its \<^verbatim>\<open>text\<close> attribute, if it
  has one.\<close>

record charset_match =
  match_text :: "pystr option"

text \<open>
  The libraries and remote services the program calls, as parameters. A call that raises
  returns \<open>Inl\<close> (or \<open>Some\<close> for a call without a result). \<open>login k\<close> is the outcome of the
  \<open>k\<close>-th call of \<^verbatim>\<open>client.login\<close>; \<open>html5\<close> is the table \<^verbatim>\<open>html.entities.html5\<close>;
  \<open>parse_html\<close> is \<^verbatim>\<open>BeautifulSoup(text, "html.parser")\<close> with its lookups and
  \<open>bs_get_text\<close> is \<^verbatim>\<open>BeautifulSoup(title, ...).get_text()\<close>.
\<close>

record env =
  login :: "nat \<Rightarrow> pystr \<Rightarrow> pystr \<Rightarrow> exn option"
  get_author_feed :: "pystr \<Rightarrow> exn + titem list"
  arrow_get :: "pystr \<Rightarrow> exn + timestamp"
  http_get :: "pystr \<Rightarrow> exn + response"
  parse_html :: "pystr \<Rightarrow> exn + soup"
  bs_get_text :: "pystr \<Rightarrow> exn + pystr"
  html5 :: "pystr \<Rightarrow> pystr option"
  from_bytes_best :: "byte list \<Rightarrow> exn + charset_match option"
  upload_blob :: "byte list \<Rightarrow> exn + blob"
  send_post :: "text_builder \<Rightarrow> embed option \<Rightarrow> exn option"
  feed_parse :: "pystr \<Rightarrow> exn + entry list"

text \<open>\<^verbatim>\<open>Response.raise_for_status()\<close> of httpx: an error unless the status is 2xx.\<close>

definition raise_for_status :: "response \<Rightarrow> exn + unit" where
  "raise_for_status r =
     (if 200 \<le> status_code r \<and> status_code r < 300 then Inr () else Inl HTTPStatusError)"

section \<open>Codecs\<close>

text \<open>\<^verbatim>\<open>text.encode("latin-1")\<close> and \<^verbatim>\<open>bytes.decode("latin-1")\<close>.\<close>

definition encode_latin1 :: "pystr \<Rightarrow> exn + byte list" where
  "encode_latin1 s = (if list_all (\<lambda>c. c < 256) s then Inr (map of_nat s) else Inl UnicodeEncodeError)"

definition decode_latin1 :: "byte list \<Rightarrow> exn + pystr" where
  "decode_latin1 bs = Inr (map unat bs)"

text \<open>
  UTF-8: the code point of the well-formed sequence at the head of the bytes and its
  length, if there is one. Overlong forms, surrogates and values above \<^verbatim>\<open>U+10FFFF\<close> are
  not well-formed.
\<close>

definition is_cont :: "nat \<Rightarrow> bool" where
  "is_cont b = (128 \<le> b \<and> b \<le> 191)"

definition utf8_first :: "nat list \<Rightarrow> (nat \<times> nat) option" where
  "utf8_first bs =
     (case bs of
        [] \<Rightarrow> None
      | b # r \<Rightarrow>
          if b < 128 then Some (b, 1)
          else if 194 \<le> b \<and> b \<le> 223 then
            (case r of
               c1 # _ \<Rightarrow> if is_cont c1 then Some ((b - 192) * 64 + (c1 - 128), 2) else None
             | _ \<Rightarrow> None)
          else if 224 \<le> b \<and> b \<le> 239 then
            (case r of
               c1 # c2 # _ \<Rightarrow>
                 if (if b = 224 then 160 else 128) \<le> c1 \<and> c1 \<le> (if b = 237 then 159 else 191)
                    \<and> is_cont c2
                 then Some ((b - 224) * 4096 + (c1 - 128) * 64 + (c2 - 128), 3) else None
             | _ \<Rightarrow> None)
          else if 240 \<le> b \<and> b \<le> 244 then
            (case r of
               c1 # c2 # c3 # _ \<Rightarrow>
                 if (if b = 240 then 144 else 128) \<le> c1 \<and> c1 \<le> (if b = 244 then 143 else 191)
                    \<and> is_cont c2 \<and> is_cont c3
                 then Some ((b - 240) * 262144 + (c1 - 128) * 4096 + (c2 - 128) * 64 + (c3 - 128), 4)
                 else None
             | _ \<Rightarrow> None)
          else None)"

text \<open>\<^verbatim>\<open>bytes.decode("utf-8")\<close>, and with \<open>ign\<close> \<^verbatim>\<open>bytes.decode("utf-8", errors="ignore")\<close>,
  which drops the bytes that start no well-formed sequence.\<close>

function utf8_decode :: "bool \<Rightarrow> nat list \<Rightarrow> exn + pystr" where
  "utf8_decode ign [] = Inr []"
| "utf8_decode ign (b # bs) =
     (case utf8_first (b # bs) of
        Some (cp, n) \<Rightarrow>
          (case utf8_decode ign (drop (n - 1) bs) of Inl e \<Rightarrow> Inl e | Inr s \<Rightarrow> Inr (cp # s))
      | None \<Rightarrow> if ign then utf8_decode ign bs else Inl UnicodeDecodeError)"
  by pat_completeness auto
termination
  by (relation "measure (\<lambda>(ign, bs). length bs)") auto

definition decode_utf8 :: "bool \<Rightarrow> byte list \<Rightarrow> exn + pystr" where
  "decode_utf8 ign bs = utf8_decode ign (map unat bs)"

section \<open>Text sanitizer: \<^verbatim>\<open>process_title\<close>\<close>

text \<open>\<^verbatim>\<open>fix_encoding\<close>: the two codec errors are the only exceptions its \<^verbatim>\<open>try\<close> block raises,
  and both are caught.\<close>

definition fix_encoding :: "pystr \<Rightarrow> pystr" where
  "fix_encoding text =
     (case encode_latin1 text of
        Inl e \<Rightarrow> text
      | Inr bs \<Rightarrow> (case decode_utf8 False bs of Inl e \<Rightarrow> text | Inr s \<Rightarrow> s))"

text \<open>
  \<^verbatim>\<open>html.unescape\<close> of the standard library. The pattern is
  \<^verbatim>\<open>&(#[0-9]+;?|#[xX][0-9a-fA-F]+;?|[^\t\n\f <&#;]{1,32};?)\<close>; \<open>match_charref\<close> is given the
  text after an \<^verbatim>\<open>&\<close> and returns the group of the match that starts at that \<^verbatim>\<open>&\<close>.
\<close>

definition is_digit :: "nat \<Rightarrow> bool" where
  "is_digit c = (48 \<le> c \<and> c \<le> 57)"

definition is_hexdigit :: "nat \<Rightarrow> bool" where
  "is_hexdigit c = (is_digit c \<or> (97 \<le> c \<and> c \<le> 102) \<or> (65 \<le> c \<and> c \<le> 70))"

definition is_name_char :: "nat \<Rightarrow> bool" where
  "is_name_char c = (c \<noteq> 9 \<and> c \<noteq> 10 \<and> c \<noteq> 12 \<and> c \<noteq> 32 \<and> c \<noteq> 60 \<and> c \<noteq> 38 \<and> c \<noteq> 35 \<and> c \<noteq> 59)"

definition opt_semi :: "pystr \<Rightarrow> pystr" where
  "opt_semi r = (case r of [] \<Rightarrow> [] | c # _ \<Rightarrow> if c = 59 then [59] else [])"

definition match_charref :: "pystr \<Rightarrow> pystr option" where
  "match_charref s =
     (case s of
        [] \<Rightarrow> None
      | c # r \<Rightarrow>
          if c = 35 then
            (if takeWhile is_digit r \<noteq> []
             then Some (c # takeWhile is_digit r @ opt_semi (dropWhile is_digit r))
             else (case r of
                     [] \<Rightarrow> None
                   | x # r' \<Rightarrow>
                       if (x = 120 \<or> x = 88) \<and> takeWhile is_hexdigit r' \<noteq> []
                       then Some (c # x # takeWhile is_hexdigit r' @ opt_semi (dropWhile is_hexdigit r'))
                       else None))
          else (let name = take 32 (takeWhile is_name_char s)
                in if name \<noteq> [] then Some (name @ opt_semi (drop (length name) s)) else None))"

text \<open>\<^verbatim>\<open>html._invalid_charrefs\<close> and \<^verbatim>\<open>html._invalid_codepoints\<close>.\<close>

definition invalid_charrefs :: "(nat \<times> nat) list" where
  "invalid_charrefs =
     [(0, 65533), (13, 13), (128, 8364), (129, 129), (130, 8218), (131, 402), (132, 8222),
      (133, 8230), (134, 8224), (135, 8225), (136, 710), (137, 8240), (138, 352), (139, 8249),
      (140, 338), (141, 141), (142, 381), (143, 143), (144, 144), (145, 8216), (146, 8217),
      (147, 8220), (148, 8221), (149, 8226), (150, 8211), (151, 8212), (152, 732), (153, 8482),
      (154, 353), (155, 8250), (156, 339), (157, 157), (158, 382), (159, 376)]"

definition invalid_codepoint :: "nat \<Rightarrow> bool" where
  "invalid_codepoint n =
     ((1 \<le> n \<and> n \<le> 8) \<or> (14 \<le> n \<and> n \<le> 31) \<or> (127 \<le> n \<and> n \<le> 159) \<or>
      (64976 \<le> n \<and> n \<le> 65007) \<or> n = 11 \<or> (n \<le> 1114111 \<and> 65534 \<le> n mod 65536))"

definition digit_val :: "nat \<Rightarrow> nat" where
  "digit_val c = (if is_digit c then c - 48 else if 97 \<le> c then c - 87 else c - 55)"

definition parse_int :: "nat \<Rightarrow> pystr \<Rightarrow> nat" where
  "parse_int base ds = foldl (\<lambda>acc d. acc * base + digit_val d) 0 ds"

definition rstrip_semi :: "pystr \<Rightarrow> pystr" where
  "rstrip_semi s = rev (dropWhile (\<lambda>c. c = 59) (rev s))"

definition numeric_charref :: "nat \<Rightarrow> pystr" where
  "numeric_charref num =
     (case map_of invalid_charrefs num of
        Some c \<Rightarrow> [c]
      | None \<Rightarrow>
          if (55296 \<le> num \<and> num \<le> 57343) \<or> num > 1114111 then [65533]
          else if invalid_codepoint num then []
          else [num])"

text \<open>The loop \<^verbatim>\<open>for x in range(len(s)-1, 1, -1)\<close> of \<^verbatim>\<open>_replace_charref\<close> and its \<^verbatim>\<open>else\<close>.\<close>

fun longest_prefix :: "(pystr \<Rightarrow> pystr option) \<Rightarrow> pystr \<Rightarrow> nat \<Rightarrow> pystr" where
  "longest_prefix tbl s 0 = 38 # s"
| "longest_prefix tbl s (Suc x) =
     (if Suc x \<le> 1 then 38 # s
      else (case tbl (take (Suc x) s) of
              Some v \<Rightarrow> v @ drop (Suc x) s
            | None \<Rightarrow> longest_prefix tbl s x))"

text \<open>
  \<^verbatim>\<open>html._replace_charref\<close>, given the group. \<^verbatim>\<open>int\<close> refuses a decimal literal of more than
  4300 digits with a \<^verbatim>\<open>ValueError\<close> (the interpreter's default limit); the limit does not
  apply to base 16.
\<close>

definition replace_charref :: "(pystr \<Rightarrow> pystr option) \<Rightarrow> pystr \<Rightarrow> exn + pystr" where
  "replace_charref tbl s =
     (case s of
        [] \<Rightarrow> Inl IndexError
      | c # r \<Rightarrow>
          if c = 35 then
            (case r of
               [] \<Rightarrow> Inl IndexError
             | x # r' \<Rightarrow>
                 if x = 120 \<or> x = 88 then Inr (numeric_charref (parse_int 16 (rstrip_semi r')))
                 else if length (rstrip_semi r) > 4300 then Inl ValueError
                 else Inr (numeric_charref (parse_int 10 (rstrip_semi r))))
          else (case tbl s of
                  Some v \<Rightarrow> Inr v
                | None \<Rightarrow> Inr (longest_prefix tbl s (length s - 1))))"

text \<open>\<^verbatim>\<open>_charref.sub(_replace_charref, s)\<close>: the matches from left to right, not overlapping.\<close>

function charref_sub :: "(pystr \<Rightarrow> pystr option) \<Rightarrow> pystr \<Rightarrow> exn + pystr" where
  "charref_sub tbl [] = Inr []"
| "charref_sub tbl (c # cs) =
     (case (if c = 38 then match_charref cs else None) of
        None \<Rightarrow> (case charref_sub tbl cs of Inl e \<Rightarrow> Inl e | Inr rest \<Rightarrow> Inr (c # rest))
      | Some g \<Rightarrow>
          (case replace_charref tbl g of
             Inl e \<Rightarrow> Inl e
           | Inr r \<Rightarrow>
               (case charref_sub tbl (drop (length g) cs) of
                  Inl e \<Rightarrow> Inl e
                | Inr rest \<Rightarrow> Inr (r @ rest))))"
  by pat_completeness auto
termination
  by (relation "measure (\<lambda>(tbl, s). length s)") auto

definition unescape :: "(pystr \<Rightarrow> pystr option) \<Rightarrow> pystr \<Rightarrow> exn + pystr" where
  "unescape tbl s = (if 38 \<notin> set s then Inr s else charref_sub tbl s)"

definition desescapar_unicode :: "env \<Rightarrow> pystr \<Rightarrow> pystr" where
  "desescapar_unicode env text = (case unescape (html5 env) text of Inl e \<Rightarrow> text | Inr s \<Rightarrow> s)"

text \<open>\<^verbatim>\<open>re.search(r'<.*?>', text)\<close>: a \<^verbatim>\<open><\<close> and, later on the same line, a \<^verbatim>\<open>>\<close>.\<close>

fun is_html :: "pystr \<Rightarrow> bool" where
  "is_html [] = False"
| "is_html (c # cs) = ((c = 60 \<and> 62 \<in> set (takeWhile (\<lambda>x. x \<noteq> 10) cs)) \<or> is_html cs)"

definition process_title :: "env \<Rightarrow> pystr \<Rightarrow> pystr" where
  "process_title env title0 =
     (case (if is_html title0
            then (case bs_get_text env title0 of Inl e \<Rightarrow> Inl e | Inr t \<Rightarrow> Inr (strip t))
            else Inr (strip title0)) of
        Inl e \<Rightarrow> title0
      | Inr title_text \<Rightarrow> fix_encoding (desescapar_unicode env title_text))"

text \<open>An excerpt of \<^verbatim>\<open>html.entities.html5\<close>, for examples.\<close>

definition html5_excerpt :: "pystr \<Rightarrow> pystr option" where
  "html5_excerpt = map_of
     [(py ''amp;'', py ''&''), (py ''amp'', py ''&''), (py ''lt;'', py ''<''), (py ''lt'', py ''<''),
      (py ''gt;'', py ''>''), (py ''gt'', py ''>''), (py ''quot;'', [34]), (py ''quot'', [34]),
      (py ''apos;'', [39]), (py ''nbsp;'', [160]), (py ''nbsp'', [160]),
      (py ''not'', [172]), (py ''not;'', [172]), (py ''notin;'', [8713])]"



section \<open>Encoding normalizer\<close>

text \<open>
  Lines 147 to 159 of \<^verbatim>\<open>main\<close>: the detected text when the detection gives a result with a
  \<^verbatim>\<open>text\<close> attribute; on a \<^verbatim>\<open>ValueError\<close> (raised by the program itself, or by the detection)
  the Latin-1 decoding; on a \<^verbatim>\<open>UnicodeDecodeError\<close> of that one, UTF-8 with the errors
  ignored. Any other exception leaves the block.
\<close>

definition detect_text :: "env \<Rightarrow> byte list \<Rightarrow> exn + pystr" where
  "detect_text env bs =
     (case from_bytes_best env bs of
        Inl e \<Rightarrow> Inl e
      | Inr None \<Rightarrow> Inl ValueError
      | Inr (Some m) \<Rightarrow> (case match_text m of None \<Rightarrow> Inl ValueError | Some t \<Rightarrow> Inr t))"

definition normalize :: "env \<Rightarrow> byte list \<Rightarrow> exn + pystr" where
  "normalize env bs =
     (case detect_text env bs of
        Inr feed_content \<Rightarrow> Inr feed_content
      | Inl e \<Rightarrow>
          if is_ValueError e then
            (case decode_latin1 bs of
               Inr feed_content \<Rightarrow> Inr feed_content
             | Inl e' \<Rightarrow> if e' = UnicodeDecodeError then decode_utf8 True bs else Inl e')
          else Inl e)"

section \<open>Link-preview fetcher and image upload\<close>

text \<open>
  The dictionary \<^verbatim>\<open>fetch_link_metadata\<close> returns: a map from its keys to values that are a
  string or \<^verbatim>\<open>None\<close>. \<open>dict_get\<close> is \<^verbatim>\<open>d.get(k)\<close>, \<open>truthy\<close> the truth value of such a value,
  and \<open>str_or v d\<close> is \<^verbatim>\<open>v or d\<close> for a string \<open>d\<close>.
\<close>

type_synonym metadata = "string \<Rightarrow> pystr option option"

definition dict_get :: "metadata \<Rightarrow> string \<Rightarrow> pystr option" where
  "dict_get d k = (case d k of None \<Rightarrow> None | Some v \<Rightarrow> v)"

definition truthy :: "pystr option \<Rightarrow> bool" where
  "truthy v = (case v of None \<Rightarrow> False | Some s \<Rightarrow> s \<noteq> [])"

definition str_or :: "pystr option \<Rightarrow> pystr \<Rightarrow> pystr" where
  "str_or v d = (if truthy v then (case v of Some s \<Rightarrow> s | None \<Rightarrow> d) else d)"

text \<open>\<^verbatim>\<open>a or b\<close> for two results of \<^verbatim>\<open>soup.find\<close>; a tag that was found is true.\<close>

definition find_or :: "tag option \<Rightarrow> tag option \<Rightarrow> tag option" where
  "find_or a b = (case a of Some t \<Rightarrow> Some t | None \<Rightarrow> b)"

definition content_of :: "tag option \<Rightarrow> pystr option" where
  "content_of t = (case t of None \<Rightarrow> None | Some tg \<Rightarrow> attr_content tg)"

text \<open>The \<^verbatim>\<open>try\<close> block of \<^verbatim>\<open>fetch_link_metadata\<close>, and the function with its handler.\<close>

definition fetch_link_metadata_try :: "env \<Rightarrow> pystr \<Rightarrow> exn + metadata" where
  "fetch_link_metadata_try env url =
     (case http_get env url of
        Inl e \<Rightarrow> Inl e
      | Inr r \<Rightarrow>
          (case raise_for_status r of
             Inl e \<Rightarrow> Inl e
           | Inr _ \<Rightarrow>
               (case parse_html env (resp_text r) of
                  Inl e \<Rightarrow> Inl e
                | Inr sp \<Rightarrow>
                    (let title1 = find_or (og_title sp) (title_tag sp);
                         desc = find_or (og_description sp) (name_description sp);
                         img = find_or (og_image sp) (twitter_image sp)
                     in Inr (Map.empty
                          (''title'' \<mapsto> Some (case content_of title1 of
                                                Some c \<Rightarrow> c
                                              | None \<Rightarrow> (case title1 of Some tg \<Rightarrow> tag_text tg | None \<Rightarrow> [])),
                           ''description'' \<mapsto> Some (case content_of desc of Some c \<Rightarrow> c | None \<Rightarrow> []),
                           ''image'' \<mapsto> content_of img))))))"

definition fetch_link_metadata :: "env \<Rightarrow> pystr \<Rightarrow> metadata" where
  "fetch_link_metadata env url =
     (case fetch_link_metadata_try env url of Inl e \<Rightarrow> Map.empty | Inr d \<Rightarrow> d)"

definition get_image_from_url :: "env \<Rightarrow> pystr \<Rightarrow> pystr \<Rightarrow> image option" where
  "get_image_from_url env image_url alt_text =
     (case http_get env image_url of
        Inl e \<Rightarrow> None
      | Inr r \<Rightarrow>
          if status_code r \<noteq> 200 then None
          else (case upload_blob env (resp_content r) of
                  Inl e \<Rightarrow> None
                | Inr b \<Rightarrow> Some \<lparr>alt = alt_text, image_blob = b\<rparr>))"

section \<open>Dedup gate\<close>

text \<open>The loop of \<^verbatim>\<open>get_last_bsky\<close> over the author feed, and the function.\<close>

fun first_top_level :: "env \<Rightarrow> titem list \<Rightarrow> exn + timestamp" where
  "first_top_level env [] = Inr 0"
| "first_top_level env (ti # rest) =
     (if reason ti = None \<and> reply ti = None then arrow_get env (created_at ti)
      else first_top_level env rest)"

definition get_last_bsky :: "env \<Rightarrow> pystr \<Rightarrow> exn + timestamp" where
  "get_last_bsky env handle =
     (case get_author_feed env handle of Inl e \<Rightarrow> Inl e | Inr feed \<Rightarrow> first_top_level env feed)"

section \<open>Post composer and driver\<close>

text \<open>Lines 178 to 207 of \<^verbatim>\<open>main\<close>: the images, the external embed and the choice.\<close>

definition fetch_images :: "env \<Rightarrow> pystr \<Rightarrow> metadata \<Rightarrow> image list" where
  "fetch_images env title_text link_metadata =
     (if truthy (dict_get link_metadata ''image'') then
        (let alt_text = str_or (Some title_text)
                          (str_or (dict_get link_metadata ''title'') (py ''Preview image''))
         in case get_image_from_url env (str_or (dict_get link_metadata ''image'') []) alt_text of
              Some img \<Rightarrow> [img]
            | None \<Rightarrow> [])
      else [])"

definition external_embed :: "pystr \<Rightarrow> metadata \<Rightarrow> embed option" where
  "external_embed item_link link_metadata =
     (if truthy (dict_get link_metadata ''title'') \<or> truthy (dict_get link_metadata ''description'')
      then Some (EmbedExternal item_link
                   (str_or (dict_get link_metadata ''title'') (py ''Link''))
                   (str_or (dict_get link_metadata ''description'') [])
                   None)
      else None)"

definition choose_embed :: "env \<Rightarrow> pystr \<Rightarrow> pystr \<Rightarrow> metadata \<Rightarrow> embed option" where
  "choose_embed env title_text item_link link_metadata =
     (let images = fetch_images env title_text link_metadata
      in if images \<noteq> [] then Some (EmbedImages images)
         else external_embed item_link link_metadata)"

text \<open>
  A call of \<^verbatim>\<open>client.send_post(rich_text, embed=embed)\<close>: its arguments and whether it raised
  (the handler around it logs the exception and goes on).
\<close>

datatype call = SendPost text_builder "embed option" "exn option"

text \<open>
  What the client library adds to \<^verbatim>\<open>make_rich\<close>. \<^verbatim>\<open>TextBuilder.tag(text, tag)\<close> builds the
  facet \<^verbatim>\<open>AppBskyRichtextFacet.Tag(tag=tag)\<close>, whose field has a maximal length of 640
  characters: for a longer tag value it raises a \<^verbatim>\<open>ValidationError\<close>, and \<^verbatim>\<open>make_rich\<close> has
  no handler. \<open>make_rich\<close> above gives the runs in the order the loops hand them to the
  builder; \<open>make_rich_call\<close> is the call \<^verbatim>\<open>make_rich(content)\<close> as its caller sees it: the
  builder when every tag is accepted, the exception otherwise. (The strings of a run are
  feed text after the normalizer and the sanitizer, which hold no lone surrogate.)
\<close>

definition tag_refused :: "run \<Rightarrow> bool" where
  "tag_refused r = (case r of Hashtag t tag_value \<Rightarrow> 640 < length tag_value | _ \<Rightarrow> False)"

definition make_rich_call :: "pystr \<Rightarrow> exn + text_builder" where
  "make_rich_call content =
     (if list_ex tag_refused (make_rich content) then Inl ValidationError
      else Inr (make_rich content))"

text \<open>
  Lines 177 to 215 of \<^verbatim>\<open>main\<close>, the block behind the gate: the metadata, the embed and the
  call of \<^verbatim>\<open>send_post\<close>. Nothing in it raises: the fetches have their handlers and the call
  is inside a \<^verbatim>\<open>try\<close>.
\<close>

definition post_entry :: "env \<Rightarrow> pystr \<Rightarrow> text_builder \<Rightarrow> entry \<Rightarrow> call" where
  "post_entry env title_text rich_text item =
     (let link_metadata = fetch_link_metadata env (link item);
          embed = choose_embed env title_text (link item) link_metadata
      in SendPost rich_text embed (send_post env rich_text embed))"

text \<open>
  The body of the loop over the entries of the feed: the calls of \<^verbatim>\<open>send_post\<close> it makes, or
  the exception that leaves it. \<^verbatim>\<open>arrow.get(item.published)\<close> (line 164) and
  \<^verbatim>\<open>make_rich(post_text)\<close> (line 171) run for every entry, before the gate and outside every
  handler.
\<close>

definition process_item :: "env \<Rightarrow> timestamp \<Rightarrow> entry \<Rightarrow> exn + call list" where
  "process_item env last_bsky item =
     (case arrow_get env (published item) of
        Inl e \<Rightarrow> Inl e
      | Inr rss_time \<Rightarrow>
          (let title_text = process_title env (title item);
               post_text = title_text @ [10] @ link item
           in case make_rich_call post_text of
                Inl e \<Rightarrow> Inl e
              | Inr rich_text \<Rightarrow>
                  if rss_time > last_bsky then Inr [post_entry env title_text rich_text item]
                  else Inr []))"

text \<open>The loop: the calls made, and the exception that ended it, if one did.\<close>

fun main_loop :: "env \<Rightarrow> timestamp \<Rightarrow> entry list \<Rightarrow> call list \<times> exn option" where
  "main_loop env last_bsky [] = ([], None)"
| "main_loop env last_bsky (item # items) =
     (case process_item env last_bsky item of
        Inl e \<Rightarrow> ([], Some e)
      | Inr cs \<Rightarrow> (case main_loop env last_bsky items of (cs', r) \<Rightarrow> (cs @ cs', r)))"

text \<open>
  The login loop: \<open>attempt k\<close> is the outcome of the \<open>k\<close>-th call of \<^verbatim>\<open>client.login\<close>. It
  returns the index of the call that succeeded and the delays slept, in order; it does not
  return when no call succeeds.
\<close>

partial_function (option) login_loop ::
  "(nat \<Rightarrow> exn option) \<Rightarrow> nat \<Rightarrow> nat \<Rightarrow> nat list \<Rightarrow> (nat \<times> nat list) option" where
  "login_loop attempt k backoff sleeps =
     (case attempt k of
        None \<Rightarrow> Some (k, sleeps)
      | Some e \<Rightarrow> login_loop attempt (Suc k) (min (backoff + 60) 600) (sleeps @ [backoff]))"

declare login_loop.simps [code]

record args =
  rss_feed :: pystr
  bsky_handle :: pystr
  bsky_username :: pystr
  bsky_app_password :: pystr

text \<open>What a run does: the delays slept, the posts sent, and the exception that ended it.\<close>

record outcome =
  slept :: "nat list"
  calls :: "call list"
  raised :: "exn option"

text \<open>\<^verbatim>\<open>main\<close> after the login: the calls of \<^verbatim>\<open>send_post\<close> and the exception, if any.\<close>

definition after_login :: "env \<Rightarrow> args \<Rightarrow> call list \<times> exn option" where
  "after_login env a =
     (case get_last_bsky env (bsky_handle a) of
        Inl e \<Rightarrow> ([], Some e)
      | Inr last_bsky \<Rightarrow>
          (case http_get env (rss_feed a) of
             Inl e \<Rightarrow> ([], Some e)
           | Inr resp \<Rightarrow>
               (case raise_for_status resp of
                  Inl e \<Rightarrow> ([], Some e)
                | Inr _ \<Rightarrow>
                    (case normalize env (resp_content resp) of
                       Inl e \<Rightarrow> ([], Some e)
                     | Inr feed_content \<Rightarrow>
                         (case feed_parse env feed_content of
                            Inl e \<Rightarrow> ([], Some e)
                          | Inr entries \<Rightarrow> main_loop env last_bsky entries)))))"

text \<open>\<^verbatim>\<open>main\<close>: \<open>None\<close> when the login loop never ends.\<close>

definition main :: "env \<Rightarrow> args \<Rightarrow> outcome option" where
  "main env a =
     (case login_loop (\<lambda>k. login env k (bsky_username a) (bsky_app_password a)) 0 60 [] of
        None \<Rightarrow> None
      | Some (n, sleeps) \<Rightarrow>
          (case after_login env a of
             (cs, r) \<Rightarrow> Some \<lparr>slept = sleeps, calls = cs, raised = r\<rparr>))"

text \<open>
  The variable \<^verbatim>\<open>post_text\<close> of the loop body, and the call of \<^verbatim>\<open>send_post\<close> the body makes
  for an entry whose rich text is built and that passes the gate.
\<close>

definition post_text :: "env \<Rightarrow> entry \<Rightarrow> pystr" where
  "post_text env item = process_title env (title item) @ [10] @ link item"

definition submission :: "env \<Rightarrow> entry \<Rightarrow> call" where
  "submission env item =
     post_entry env (process_title env (title item)) (make_rich (post_text env item)) item"

section \<open>An example environment\<close>

text \<open>
  A world for the examples: the login succeeds at the third call; the account
  \<^verbatim>\<open>new.test\<close> has no post, any other account has a repost, a reply and then a post of its
  own; three pages are reachable, and one image.
\<close>

definition page1 :: soup where
  "page1 = \<lparr>og_title = Some \<lparr>attr_content = Some (py ''X''), tag_text = []\<rparr>, title_tag = None,
     og_description = None, name_description = None,
     og_image = Some \<lparr>attr_content = Some (py ''http://a.test/i.png''), tag_text = []\<rparr>,
     twitter_image = None\<rparr>"

definition page2 :: soup where
  "page2 = \<lparr>og_title = None, title_tag = Some \<lparr>attr_content = None, tag_text = py ''Y''\<rparr>,
     og_description = None, name_description = None, og_image = None, twitter_image = None\<rparr>"

definition env0 :: env where
  "env0 = \<lparr>
     login = (\<lambda>k u p. if k < 2 then Some OtherException else None),
     get_author_feed = (\<lambda>h. Inr (if h = py ''new.test'' then []
        else [\<lparr>reason = Some (py ''repost''), reply = None, created_at = py ''2024-01-03''\<rparr>,
              \<lparr>reason = None, reply = Some (py ''parent''), created_at = py ''2024-01-02''\<rparr>,
              \<lparr>reason = None, reply = None, created_at = py ''2024-01-01''\<rparr>])),
     arrow_get = (\<lambda>s. if s = py ''1970-01-01T00:00:00+00:00'' then Inr 0
        else if s = py ''2024-01-01'' then Inr 1704067200000000
        else if s = py ''2024-01-02'' then Inr 1704153600000000
        else if s = py ''2024-01-03'' then Inr 1704240000000000
        else Inl ParserError),
     http_get = (\<lambda>u. if u = py ''http://a.test/feed''
          then Inr \<lparr>status_code = 200, resp_text = [], resp_content = [60, 114, 115, 115, 62]\<rparr>
        else if u = py ''http://a.test/1''
          then Inr \<lparr>status_code = 200, resp_text = py ''p1'', resp_content = []\<rparr>
        else if u = py ''http://a.test/2''
          then Inr \<lparr>status_code = 200, resp_text = py ''p2'', resp_content = []\<rparr>
        else if u = py ''http://a.test/i.png''
          then Inr \<lparr>status_code = 200, resp_text = [], resp_content = [137, 80, 78, 71]\<rparr>
        else Inl OtherException),
     parse_html = (\<lambda>t. if t = py ''p1'' then Inr page1 else if t = py ''p2'' then Inr page2
        else Inl ParserError),
     bs_get_text = (\<lambda>s. Inl ParserError),
     html5 = html5_excerpt,
     from_bytes_best = (\<lambda>bs. Inr None),
     upload_blob = (\<lambda>bs. Inr (BlobRef bs)),
     send_post = (\<lambda>rt e. None),
     feed_parse = (\<lambda>s. Inr
        [\<lparr>title = py ''Hi #x'', link = py ''http://a.test/3'', published = py ''2024-01-02''\<rparr>,
         \<lparr>title = py ''Old'', link = py ''http://a.test/2'',
          published = py ''1970-01-01T00:00:00+00:00''\<rparr>])\<rparr>"

definition args0 :: args where
  "args0 = \<lparr>rss_feed = py ''http://a.test/feed'', bsky_handle = py ''old.test'',
     bsky_username = py ''u'', bsky_app_password = py ''p''\<rparr>"

definition epoch_entry :: entry where
  "epoch_entry = \<lparr>title = py ''Old'', link = py ''http://a.test/2'',
     published = py ''1970-01-01T00:00:00+00:00''\<rparr>"

text \<open>An entry later than the last post, whose title is one hashtag of 641 letters.\<close>

definition long_title :: pystr where
  "long_title = 35 # replicate 641 97"

definition long_entry :: entry where
  "long_entry = \<lparr>title = long_title, link = py ''http://a.test/3'', published = py ''2024-01-02''\<rparr>"

section \<open>Facts about strings\<close>

lemma py_Nil: "py [] = []"
  by (simp add: py_def)

lemma py_Cons: "py (c # cs) = of_char c # py cs"
  by (simp add: py_def)

lemma startswith_Nil: "startswith s []"
  by (simp add: startswith_def)

lemma startswith_Cons:
  "startswith s (p # ps) = (case s of [] \<Rightarrow> False | c # cs \<Rightarrow> c = p \<and> startswith cs ps)"
  by (cases s) (auto simp: startswith_def)

lemmas str_simps = py_Nil py_Cons startswith_Nil startswith_Cons

section \<open>The tokenizer\<close>

lemmas tokenizer_defs = make_rich_def add_line_def add_segment_def tb_text_def tb_link_def
  tb_tag_def strip_def is_space_def is_alnum_def Let_def str_simps

lemma concat_re_split_tags: "concat (re_split_tags seg s) = seg @ s"
  by (induction seg s rule: re_split_tags.induct) auto

lemma re_split_tags_odd: "odd (length (re_split_tags seg s))"
  by (induction seg s rule: re_split_tags.induct) auto

lemma re_split_tags_not_Nil: "re_split_tags seg s \<noteq> []"
  using re_split_tags_odd [of seg s] by auto

lemma re_split_tags_matches:
  "i < length (re_split_tags seg s) \<Longrightarrow> odd i \<Longrightarrow> is_tag_match (re_split_tags seg s ! i)"
proof (induction seg s arbitrary: i rule: re_split_tags.induct)
  case (1 seg)
  then show ?case by simp
next
  case (2 seg c cs)
  show ?case
  proof (cases "c = 35 \<and> takeWhile is_alnum cs \<noteq> []")
    case True
    show ?thesis
    proof (cases "i = 1")
      case True
      with \<open>c = 35 \<and> takeWhile is_alnum cs \<noteq> []\<close> show ?thesis
        by (auto simp: is_tag_match_def list_all_iff dest: set_takeWhileD)
    next
      case False
      with "2.prems" obtain j where j: "i = Suc (Suc j)" "odd j"
        by (cases i; cases "i - 1") auto
      with "2.prems" True have "j < length (re_split_tags [] (dropWhile is_alnum cs))"
        by simp
      with "2.IH"(1) [OF True this] j True show ?thesis by simp
    qed
  next
    case False
    with "2.prems" "2.IH"(2) [OF False, of i] show ?thesis by auto
  qed
qed

lemma add_segment_run: "add_segment n tb p = tb @ [segment_run n p]"
  by (cases p) (simp add: add_segment_def segment_run_def tb_tag_def tb_text_def Let_def)

lemma foldl_add_segment: "foldl (add_segment n) tb ps = tb @ map (segment_run n) ps"
  by (induction ps arbitrary: tb) (simp_all add: add_segment_run)

lemma add_line_append: "add_line tb line = tb @ line_runs line"
  by (simp add: add_line_def line_runs_def foldl_add_segment tb_link_def Let_def)

lemma foldl_add_line: "foldl add_line tb ls = tb @ concat (map line_runs ls)"
  by (induction ls arbitrary: tb) (simp_all add: add_line_append)

lemma make_rich_lines: "make_rich content = concat (map line_runs (split_on 10 [] content))"
  by (simp add: make_rich_def foldl_add_line)

lemma line_runs_url: "startswith line (py ''http'') \<Longrightarrow> line_runs line = [Link (strip line) (strip line)]"
  by (simp add: line_runs_def add_line_def tb_link_def Let_def)

lemma line_runs_text:
  "\<not> startswith line (py ''http'') \<Longrightarrow>
   line_runs line =
     map (segment_run (length (re_split_tags [] line))) (enumerate 0 (re_split_tags [] line))"
  by (simp add: line_runs_def add_line_def foldl_add_segment Let_def)


lemma is_space_nl: "is_space 10"
  by (simp add: is_space_def)

lemma strip_snoc_space: "is_space w \<Longrightarrow> strip (xs @ [w]) = strip xs"
proof (cases "\<forall>x\<in>set xs. is_space x")
  case True
  assume "is_space w"
  then have w: "is_space w" .
  from True have a: "dropWhile is_space xs = []"
    by (simp only: dropWhile_eq_Nil_conv)
  from True w have "\<forall>x\<in>set (xs @ [w]). is_space x" by simp
  then have b: "dropWhile is_space (xs @ [w]) = []"
    by (simp only: dropWhile_eq_Nil_conv)
  show ?thesis unfolding strip_def a b ..
next
  case False
  assume w: "is_space w"
  from False obtain x where "x \<in> set xs" "\<not> is_space x" by blast
  then have "dropWhile is_space (xs @ [w]) = dropWhile is_space xs @ [w]"
    by (rule dropWhile_append1)
  with w show ?thesis by (simp add: strip_def)
qed

lemma set_strip: "set (strip s) \<subseteq> set s"
proof -
  have "set (strip s) \<subseteq> set (dropWhile is_space s)"
    unfolding strip_def using set_dropWhileD [of _ is_space "rev (dropWhile is_space s)"] by auto
  also have "\<dots> \<subseteq> set s"
    using set_dropWhileD [of _ is_space s] by auto
  finally show ?thesis .
qed

lemma alnum_not_space: "is_alnum c \<Longrightarrow> \<not> is_space c"
  by (auto simp: is_alnum_def is_space_def)

lemma strip_alnum: "list_all is_alnum xs \<Longrightarrow> strip xs = xs"
proof (cases xs rule: rev_cases)
  case Nil
  then show ?thesis by (simp add: strip_def)
next
  case (snoc ys y)
  assume a: "list_all is_alnum xs"
  with snoc have "\<not> is_space y" by (simp add: alnum_not_space)
  moreover from a snoc have "\<not> is_space (hd xs)"
    by (cases ys) (simp_all add: alnum_not_space)
  ultimately have "dropWhile is_space xs = xs" "dropWhile is_space (rev xs) = rev xs"
    using snoc by (simp_all add: dropWhile_eq_self_iff)
  then show ?thesis by (simp add: strip_def)
qed

lemma split_on_no_sep:
  "sep \<notin> set cur \<Longrightarrow> l \<in> set (split_on sep cur s) \<Longrightarrow> sep \<notin> set l"
  by (induction sep cur s rule: split_on.induct) (auto split: if_splits)

lemma concat_segments:
  "segs \<noteq> [] \<Longrightarrow>
   concat (map (\<lambda>(i, t). if i = k + length segs - 1 then t @ [10] else t) (enumerate k segs))
     = concat segs @ [10::nat]"
proof (induction segs arbitrary: k)
  case Nil
  then show ?case by simp
next
  case (Cons x xs)
  show ?case
  proof (cases "xs = []")
    case True
    then show ?thesis by simp
  next
    case False
    from Cons.IH [OF False, of "Suc k"] False show ?thesis by simp
  qed
qed

lemma run_text_segment_run:
  "run_text (segment_run n p) = (case p of (i, t) \<Rightarrow> if i = n - 1 then t @ [10] else t)"
  by (cases p) (simp add: segment_run_def Let_def)

lemma build_text_line_runs:
  "build_text (line_runs line) = (if startswith line (py ''http'') then strip line else line @ [10])"
proof (cases "startswith line (py ''http'')")
  case True
  then show ?thesis by (simp add: line_runs_url build_text_def)
next
  case False
  let ?segs = "re_split_tags [] line"
  have "build_text (line_runs line)
      = concat (map (\<lambda>(i, t). if i = 0 + length ?segs - 1 then t @ [10] else t) (enumerate 0 ?segs))"
    using False
    by (simp add: line_runs_text build_text_def comp_def run_text_segment_run case_prod_unfold)
  also have "\<dots> = concat ?segs @ [10]"
    by (rule concat_segments) (rule re_split_tags_not_Nil)
  finally show ?thesis using False by (simp add: concat_re_split_tags)
qed

lemma build_text_append: "build_text (a @ b) = build_text a @ build_text b"
  by (simp add: build_text_def)

lemma build_text_concat: "build_text (concat rss) = concat (map build_text rss)"
  by (induction rss) (simp_all add: build_text_append, simp add: build_text_def)

text \<open>
  Claim C2, as amended. The display text of the runs of one line is the line followed by
  one newline when the line does not start with \<^verbatim>\<open>http\<close> (every such line, not only the
  last one of the body), and the line with the whitespace at its ends removed, with no
  newline, when it does. So the text of the whole post is the concatenation of these, line
  by line.
\<close>

theorem make_rich_round_trip:
  "build_text (line_runs line) = (if startswith line (py ''http'') then strip line else line @ [10]) \<and>
   build_text (make_rich content) =
     concat (map (\<lambda>l. if startswith l (py ''http'') then strip l else l @ [10])
       (split_on 10 [] content))"
  by (simp add: make_rich_lines build_text_concat comp_def build_text_line_runs)

text \<open>
  Claim C2 as stated fails on a body of three lines: the first line gains a newline though
  it is not the last line, the second line loses its trailing blank, and the last line gets
  no newline.
\<close>

theorem make_rich_round_trip_cex:
  "make_rich (py ''a'' @ [10] @ py ''http://b '' @ [10] @ py ''http://c'') =
     [PlainText (py ''a'' @ [10]), Link (py ''http://b'') (py ''http://b''),
      Link (py ''http://c'') (py ''http://c'')]"
  by (simp add: tokenizer_defs)


lemma segment_run_not_Link: "Link t u = segment_run n p \<Longrightarrow> False"
  by (cases p) (simp add: segment_run_def Let_def split: if_splits)

lemma line_runs_no_Link:
  "\<not> startswith line (py ''http'') \<Longrightarrow> Link t u \<notin> set (line_runs line)"
  by (auto simp: line_runs_text dest: segment_run_not_Link)

text \<open>
  Claim C4, as amended. The test is made on the line as it is, before any trimming: a line
  that starts with the four characters \<^verbatim>\<open>http\<close> gives exactly one Link run, whose display
  text and target are both the trimmed line; any other line gives no Link run at all.
\<close>

theorem url_line_rule:
  "make_rich content = concat (map line_runs (split_on 10 [] content)) \<and>
   (startswith line (py ''http'') \<longrightarrow> line_runs line = [Link (strip line) (strip line)]) \<and>
   (\<not> startswith line (py ''http'') \<longrightarrow> (\<forall>t u. Link t u \<notin> set (line_runs line)))"
  by (simp add: make_rich_lines line_runs_url line_runs_no_Link)

text \<open>Claim C4: the amended rule at a URL line with a trailing blank and at a text line.\<close>

theorem url_line_rule_witness:
  "startswith (py ''https://a.b/c '') (py ''http'') \<and>
   line_runs (py ''https://a.b/c '') = [Link (py ''https://a.b/c'') (py ''https://a.b/c'')] \<and>
   \<not> startswith (py ''see #x'') (py ''http'') \<and>
   line_runs (py ''see #x'') = [PlainText (py ''see ''), Hashtag (py ''#x'') (py ''x''), PlainText [10]]"
  using url_line_rule [of "[]" "py ''https://a.b/c ''"] url_line_rule [of "[]" "py ''see #x''"]
  by (simp add: line_runs_def tokenizer_defs)

text \<open>
  Claim C4 as stated fails on a URL line with a leading blank: after trimming it starts
  with \<^verbatim>\<open>http\<close>, and the tokenizer emits it as plain text.
\<close>

theorem url_line_rule_cex:
  "startswith (strip (py '' http://a.b/c'')) (py ''http'') \<and>
   make_rich (py '' http://a.b/c'') = [PlainText (py '' http://a.b/c'' @ [10])]"
  by (simp add: tokenizer_defs)

lemma segment_run_last:
  "i = n - 1 \<Longrightarrow> segment_run n (i, t) =
     (if startswith t (py ''#'') then Hashtag (t @ [10]) (strip (tl t)) else PlainText (t @ [10]))"
  by (cases t) (simp_all add: segment_run_def strip_snoc_space is_space_nl str_simps)

lemma segment_run_Hashtag:
  assumes "segment_run n (i, t0) = Hashtag t g" and "10 \<notin> set t0"
  shows "startswith t (py ''#'') \<and> 10 \<notin> set g"
proof (cases "i = n - 1")
  case True
  from assms(1) have "startswith t0 (py ''#'')" and g: "g = strip (tl t0)" and "t = t0 @ [10]"
    unfolding segment_run_last [OF True] by (auto split: if_splits)
  moreover have "set (strip (tl t0)) \<subseteq> set t0"
    using set_strip [of "tl t0"] by (cases t0) auto
  ultimately show ?thesis using assms(2) by (cases t0) (auto simp: str_simps)
next
  case False
  with assms(1) have "startswith t0 (py ''#'')" and g: "g = strip (drop 1 t0)" and "t = t0"
    by (auto simp: segment_run_def split: if_splits)
  moreover have "set (strip (drop 1 t0)) \<subseteq> set t0"
    using set_strip [of "drop 1 t0"] set_drop_subset [of 1 t0] by auto
  ultimately show ?thesis using assms(2) by auto
qed

lemma line_runs_Hashtag:
  assumes "Hashtag t g \<in> set (line_runs line)" and "10 \<notin> set line"
  shows "startswith t (py ''#'') \<and> 10 \<notin> set g"
proof (cases "startswith line (py ''http'')")
  case True
  with assms(1) show ?thesis by (simp add: line_runs_url)
next
  case False
  let ?segs = "re_split_tags [] line"
  from assms(1) False obtain p where p: "p \<in> set (enumerate 0 ?segs)"
      and r: "segment_run (length ?segs) p = Hashtag t g"
    by (auto simp: line_runs_text)
  obtain i t0 where [simp]: "p = (i, t0)" by (cases p)
  from p have "t0 \<in> set ?segs" by (auto simp: in_set_enumerate_eq)
  then have "set t0 \<subseteq> set (concat ?segs)" by auto
  with assms(2) have "10 \<notin> set t0" by (auto simp: concat_re_split_tags)
  with r show ?thesis using segment_run_Hashtag by simp
qed

lemma make_rich_Hashtag:
  assumes "Hashtag t g \<in> set (make_rich content)"
  shows "startswith t (py ''#'') \<and> 10 \<notin> set g"
proof -
  from assms obtain line where l: "line \<in> set (split_on 10 [] content)"
      and h: "Hashtag t g \<in> set (line_runs line)"
    by (auto simp: make_rich_lines)
  from l have "10 \<notin> set line" using split_on_no_sep [of 10 "[]" line content] by simp
  with h show ?thesis by (rule line_runs_Hashtag)
qed

text \<open>
  Claim C10, which the code misses. The split is made with the pattern of a hashtag, but the
  loop decides by \<^verbatim>\<open>t.startswith("#")\<close>: a segment that is not a match and begins with \<^verbatim>\<open>#\<close>
  is emitted as a Hashtag run. On the line \<^verbatim>\<open># news\<close> the only segment is not a match, it
  is the last one, and it becomes a Hashtag run whose display text ends with the newline
  and is not \<^verbatim>\<open>#\<close> followed by the tag; on the line \<^verbatim>\<open>##a x\<close> the first segment, \<^verbatim>\<open>#\<close>, is
  not a match and becomes a Hashtag run with an empty tag.
\<close>

theorem hashtag_misfire:
  "re_split_tags [] (py ''# news'') = [py ''# news''] \<and> \<not> is_tag_match (py ''# news'') \<and>
   make_rich (py ''# news'') = [Hashtag (py ''# news'' @ [10]) (py ''news'')] \<and>
   re_split_tags [] (py ''##a x'') = [py ''#'', py ''#a'', py '' x''] \<and> \<not> is_tag_match (py ''#'') \<and>
   make_rich (py ''##a x'') =
     [Hashtag (py ''#'') [], Hashtag (py ''#a'') (py ''a''), PlainText (py '' x'' @ [10])]"
  by (simp add: tokenizer_defs is_tag_match_def)

section \<open>The sanitizer\<close>

lemma strip_idem: "strip (strip s) = strip s"
proof (cases "strip s = []")
  case True
  show ?thesis unfolding True by (simp add: strip_def)
next
  case False
  let ?t = "dropWhile is_space s"
  let ?u = "dropWhile is_space (rev ?t)"
  have u: "strip s = rev ?u" by (simp add: strip_def)
  with False have une: "?u \<noteq> []" by simp
  have tne: "?t \<noteq> []"
  proof
    assume e: "?t = []"
    have "?u = []" unfolding e by simp
    with une show False ..
  qed
  have "\<not> is_space (hd ?u)" using une by (rule hd_dropWhile)
  then have last: "\<not> is_space (last (strip s))" using une by (simp add: u last_rev)
  have "\<not> is_space (hd ?t)" using tne by (rule hd_dropWhile)
  moreover have "rev ?t = takeWhile is_space (rev ?t) @ ?u" by simp
  then have "?t = rev ?u @ rev (takeWhile is_space (rev ?t))"
    by (metis rev_append rev_rev_ident)
  then have "hd ?t = hd (rev ?u)" using une by (metis hd_append2 rev_is_Nil_conv)
  ultimately have hd: "\<not> is_space (hd (strip s))" by (simp add: u)
  from hd have a: "dropWhile is_space (strip s) = strip s"
    by (simp add: dropWhile_eq_self_iff)
  from last False have b: "dropWhile is_space (rev (strip s)) = rev (strip s)"
    by (simp add: dropWhile_eq_self_iff hd_rev)
  show ?thesis unfolding strip_def [of "strip s"] a b by simp
qed

lemma is_html_append2: "is_html ys \<Longrightarrow> is_html (xs @ ys)"
  by (induction xs) auto

lemma is_html_append1: "is_html xs \<Longrightarrow> is_html (xs @ ys)"
proof (induction xs)
  case Nil
  then show ?case by simp
next
  case (Cons c cs)
  have "set (takeWhile (\<lambda>x. x \<noteq> 10) cs) \<subseteq> set (takeWhile (\<lambda>x. x \<noteq> 10) (cs @ ys))"
    by (induction cs) auto
  with Cons show ?case by auto
qed

lemma strip_infix: "\<exists>a b. s = a @ strip s @ b"
proof -
  let ?t = "dropWhile is_space s"
  have "s = takeWhile is_space s @ ?t" by simp
  moreover have "rev ?t = takeWhile is_space (rev ?t) @ dropWhile is_space (rev ?t)" by simp
  then have "?t = strip s @ rev (takeWhile is_space (rev ?t))"
    unfolding strip_def by (metis rev_append rev_rev_ident)
  ultimately have "s = takeWhile is_space s @ strip s @ rev (takeWhile is_space (rev ?t))"
    by simp
  then show ?thesis by blast
qed

lemma is_html_strip: "is_html (strip s) \<Longrightarrow> is_html s"
proof -
  assume h: "is_html (strip s)"
  obtain a b where s: "s = a @ strip s @ b" using strip_infix by blast
  from h have "is_html (a @ strip s @ b)" by (intro is_html_append2 is_html_append1)
  with s show ?thesis by simp
qed

lemma utf8_decode_ascii: "list_all (\<lambda>c. c < 128) bs \<Longrightarrow> utf8_decode ign bs = Inr bs"
  by (induction bs) (simp_all add: utf8_first_def)

lemma fix_encoding_ascii: "list_all (\<lambda>c. c < 128) s \<Longrightarrow> fix_encoding s = s"
proof -
  assume a: "list_all (\<lambda>c. c < 128) s"
  then have l: "list_all (\<lambda>c. c < 256) s" by (induction s) auto
  have "map unat (map of_nat s :: byte list) = s"
    using l by (induction s) (simp_all add: unat_of_nat)
  with a l show ?thesis
    by (simp add: fix_encoding_def encode_latin1_def decode_utf8_def utf8_decode_ascii)
qed

lemma process_title_plain:
  assumes "list_all (\<lambda>c. c < 128) s" and "\<not> is_html s" and "38 \<notin> set s"
  shows "process_title env s = strip s"
proof -
  have "set (strip s) \<subseteq> set s" by (rule set_strip)
  with assms have "38 \<notin> set (strip s)" and "list_all (\<lambda>c. c < 128) (strip s)"
    by (auto simp: list_all_iff)
  with assms(2) show ?thesis
    by (simp add: process_title_def desescapar_unicode_def unescape_def fix_encoding_ascii)
qed

text \<open>
  Claim C3, as amended. On a pure-ASCII string without a tag and without \<^verbatim>\<open>&\<close> (so without
  a character reference) the sanitizer only trims the whitespace at the ends, and applying
  it twice is the same as applying it once.
\<close>

theorem process_title_idempotent:
  "list_all (\<lambda>c. c < 128) s \<Longrightarrow> \<not> is_html s \<Longrightarrow> 38 \<notin> set s \<Longrightarrow>
   process_title env (process_title env s) = process_title env s \<and>
   process_title env s = strip s"
proof -
  assume a: "list_all (\<lambda>c. c < 128) s" "\<not> is_html s" "38 \<notin> set s"
  have sub: "set (strip s) \<subseteq> set s" by (rule set_strip)
  from a sub have "list_all (\<lambda>c. c < 128) (strip s)" "38 \<notin> set (strip s)"
    by (auto simp: list_all_iff)
  moreover from a(2) have "\<not> is_html (strip s)" using is_html_strip by blast
  ultimately have "process_title env (strip s) = strip (strip s)"
    by (intro process_title_plain)
  with a show ?thesis by (simp add: process_title_plain strip_idem)
qed

lemmas sanitizer_defs = process_title_def desescapar_unicode_def unescape_def fix_encoding_def
  encode_latin1_def decode_utf8_def utf8_first_def match_charref_def replace_charref_def
  numeric_charref_def invalid_charrefs_def invalid_codepoint_def parse_int_def digit_val_def
  rstrip_semi_def opt_semi_def is_digit_def is_hexdigit_def is_name_char_def html5_excerpt_def
  strip_def is_space_def env0_def Let_def str_simps

text \<open>
  Claim C3: the amended statement at a title with blanks at its ends.
\<close>

theorem process_title_idempotent_witness:
  "list_all (\<lambda>c. c < 128) (py '' C# and more '') \<and> \<not> is_html (py '' C# and more '') \<and>
   38 \<notin> set (py '' C# and more '') \<and>
   process_title env0 (py '' C# and more '') = py ''C# and more'' \<and>
   process_title env0 (process_title env0 (py '' C# and more '')) = py ''C# and more''"
proof -
  let ?s = "py '' C# and more ''"
  have h: "list_all (\<lambda>c. c < 128) ?s" "\<not> is_html ?s" "38 \<notin> set ?s"
    by (simp_all add: str_simps)
  have st: "strip ?s = py ''C# and more''"
    by (simp add: strip_def is_space_def str_simps)
  from process_title_idempotent [OF h, of env0]
  have c: "process_title env0 (process_title env0 ?s) = process_title env0 ?s \<and>
    process_title env0 ?s = py ''C# and more''"
    unfolding st .
  then have a: "process_title env0 (process_title env0 ?s) = process_title env0 ?s" ..
  from c have b: "process_title env0 ?s = py ''C# and more''" ..
  from a b have d: "process_title env0 (process_title env0 ?s) = py ''C# and more''"
    by (rule trans)
  from h b d show ?thesis by (intro conjI)
qed

text \<open>
  Claim C3 as stated fails on pure-ASCII, tag-free titles that hold an escaped character
  reference: each pass unescapes one level, so the second pass changes the result of the
  first.
\<close>

theorem process_title_idempotent_cex:
  "list_all (\<lambda>c. c < 128) (py ''&#38;#38;'') \<and> \<not> is_html (py ''&#38;#38;'') \<and>
   process_title env0 (py ''&#38;#38;'') = py ''&#38;'' \<and>
   process_title env0 (process_title env0 (py ''&#38;#38;'')) = py ''&'' \<and>
   process_title env0 (py ''AT&amp;amp;T'') = py ''AT&amp;T'' \<and>
   process_title env0 (process_title env0 (py ''AT&amp;amp;T'')) = py ''AT&T''"
  by (simp add: sanitizer_defs)

section \<open>Login\<close>

lemma login_loop_succeeds:
  "attempt (k + n) = None \<Longrightarrow> (\<forall>i<n. attempt (k + i) \<noteq> None) \<Longrightarrow> b \<le> 600 \<Longrightarrow>
   login_loop attempt k b sl = Some (k + n, sl @ map (\<lambda>i. min (b + 60 * i) 600) [0..<n])"
proof (induction n arbitrary: k b sl)
  case 0
  then show ?case by (simp add: login_loop.simps)
next
  case (Suc n)
  from Suc.prems(2) have k: "attempt k \<noteq> None" by (metis add.right_neutral zero_less_Suc)
  have a: "attempt (Suc k + n) = None" using Suc.prems(1) by simp
  have b: "\<forall>i<n. attempt (Suc k + i) \<noteq> None" using Suc.prems(2) by (metis Suc_less_eq add_Suc_shift)
  have c: "min (b + 60) 600 \<le> (600::nat)" by simp
  have m: "map (\<lambda>i. min (b + 60 * i) 600) [0..<Suc n]
         = b # map (\<lambda>i. min (min (b + 60) 600 + 60 * i) 600) [0..<n]"
    using Suc.prems(3) by (auto simp: upt_conv_Cons map_Suc_upt [symmetric] simp del: upt_Suc)
  from k obtain e where "attempt k = Some e" by auto
  then have "login_loop attempt k b sl
           = login_loop attempt (Suc k) (min (b + 60) 600) (sl @ [b])"
    by (subst login_loop.simps) simp
  also have "\<dots> = Some (Suc k + n, (sl @ [b]) @ map (\<lambda>i. min (min (b + 60) 600 + 60 * i) 600) [0..<n])"
    by (rule Suc.IH [OF a b c])
  finally show ?case unfolding m by simp
qed

lemma login_loop_sound:
  assumes "login_loop attempt k b sl = Some r"
  shows "attempt (fst r) = None"
  by (rule login_loop.raw_induct
        [where P = "\<lambda>attempt k b sl r. attempt (fst r) = None", OF _ assms])
     (auto split: option.splits)

lemma login_loop_never:
  "(\<forall>k. attempt k \<noteq> None) \<Longrightarrow> login_loop attempt k b sl = None"
proof (cases "login_loop attempt k b sl")
  case None
  then show ?thesis .
next
  case (Some r)
  assume "\<forall>k. attempt k \<noteq> None"
  then have "attempt (fst r) \<noteq> None" ..
  with login_loop_sound [OF Some] show ?thesis by contradiction
qed

lemma login_loop_Least:
  assumes "attempt m = None"
  shows "login_loop attempt 0 60 [] =
           Some (LEAST n. attempt n = None,
                 map (\<lambda>i. min (60 * (i + 1)) 600) [0..<LEAST n. attempt n = None])"
proof -
  let ?n = "LEAST n. attempt n = None"
  have "attempt ?n = None" using assms by (rule LeastI)
  then have a: "attempt (0 + ?n) = None" by simp
  have b: "\<forall>i<?n. attempt (0 + i) \<noteq> None" using not_less_Least by auto
  from login_loop_succeeds [OF a b, of 60 "[]"] show ?thesis by simp
qed



lemma backoff_mono: "i \<le> j \<Longrightarrow> min (60 * (i + 1)) 600 \<le> min (60 * (j + 1)) (600::nat)"
  by (simp add: min_def)

lemma sorted_backoff: "sorted (map (\<lambda>i. min (60 * (i + 1)) 600) [0..<n::nat])"
  unfolding sorted_iff_nth_mono
proof (intro allI impI)
  fix i j assume "i \<le> j" "j < length (map (\<lambda>i. min (60 * (i + 1)) 600) [0..<n::nat])"
  then have "i < n" "j < n" by simp_all
  then show "map (\<lambda>i. min (60 * (i + 1)) 600) [0..<n] ! i
     \<le> map (\<lambda>i. min (60 * (i + 1)) 600) [0..<n] ! j"
    using backoff_mono [OF \<open>i \<le> j\<close>] by (simp del: mult_Suc_right)
qed

lemma main_cases:
  "main env a =
     (case login_loop (\<lambda>k. login env k (bsky_username a) (bsky_app_password a)) 0 60 [] of
        None \<Rightarrow> None
      | Some r \<Rightarrow> Some \<lparr>slept = snd r, calls = fst (after_login env a),
                          raised = snd (after_login env a)\<rparr>)"
  by (simp add: main_def split: option.splits prod.splits)

text \<open>
  Claim C9. The run gets past the login exactly when some call of \<^verbatim>\<open>client.login\<close> succeeds
  (it never ends otherwise). When it does, the number of delays slept is the index of the
  first call that succeeded, every earlier call failed, the delay before retry \<open>i\<close> (from 0)
  is \<open>min (60 * (i + 1)) 600\<close> seconds, which is at most 600, and the delays never decrease.
\<close>

theorem login_backoff:
  "(main env a = None \<longleftrightarrow> (\<forall>k. login env k (bsky_username a) (bsky_app_password a) \<noteq> None)) \<and>
   (\<forall>out. main env a = Some out \<longrightarrow>
      login env (length (slept out)) (bsky_username a) (bsky_app_password a) = None \<and>
      (\<forall>i<length (slept out).
          login env i (bsky_username a) (bsky_app_password a) \<noteq> None \<and>
          slept out ! i = min (60 * (i + 1)) 600 \<and> slept out ! i \<le> 600) \<and>
      sorted (slept out))"
proof (cases "\<exists>m. login env m (bsky_username a) (bsky_app_password a) = None")
  case False
  then have "login_loop (\<lambda>k. login env k (bsky_username a) (bsky_app_password a)) 0 60 [] = None"
    by (intro login_loop_never) simp
  with False show ?thesis by (simp add: main_cases)
next
  case True
  let ?att = "\<lambda>k. login env k (bsky_username a) (bsky_app_password a)"
  let ?n = "LEAST n. ?att n = None"
  let ?ds = "map (\<lambda>i. min (60 * (i + 1)) 600) [0..<?n]"
  from True obtain m where m: "?att m = None" ..
  have loop: "login_loop ?att 0 60 [] = Some (?n, ?ds)"
    using m by (rule login_loop_Least)
  have n: "?att ?n = None" using m by (rule LeastI)
  have less: "?att i \<noteq> None" if "i < ?n" for i using not_less_Least [OF that] .
  have sorted: "sorted ?ds" by (rule sorted_backoff)
  have len: "length ?ds = ?n" by simp
  have nth: "?ds ! i = min (60 * (i + 1)) 600" if "i < ?n" for i
    using that by simp
  have out: "slept out = ?ds" if "main env a = Some out" for out
  proof -
    from that loop have "out = \<lparr>slept = ?ds, calls = fst (after_login env a),
                          raised = snd (after_login env a)\<rparr>"
      by (simp add: main_cases)
    then show ?thesis by simp
  qed
  have some: "main env a \<noteq> None" using loop by (simp add: main_cases)
  have ex: "\<not> (\<forall>k. ?att k \<noteq> None)" using m by blast
  have second: "?att (length (slept out)) = None \<and>
      (\<forall>i<length (slept out).
          ?att i \<noteq> None \<and> slept out ! i = min (60 * (i + 1)) 600 \<and> slept out ! i \<le> 600) \<and>
      sorted (slept out)" if "main env a = Some out" for out
  proof (intro conjI allI impI)
    note o = out [OF that]
    show "?att (length (slept out)) = None" unfolding o len by (rule n)
    show "sorted (slept out)" unfolding o by (rule sorted)
    fix i assume "i < length (slept out)"
    then have i: "i < ?n" unfolding o len .
    show "?att i \<noteq> None" using i by (rule less)
    show "slept out ! i = min (60 * (i + 1)) 600" unfolding o using i by (rule nth)
    then show "slept out ! i \<le> 600" by (simp only: min.cobounded2)
  qed
  show ?thesis
  proof (intro conjI allI impI)
    show "main env a = None \<longleftrightarrow> (\<forall>k. ?att k \<noteq> None)" using some ex by (simp only:)
  qed (use second in blast)+
qed


text \<open>
  Claim C9 in the example world, where the first two calls fail: the run gets past the
  login after sleeping 60 and 120 seconds.
\<close>

theorem login_backoff_witness:
  "login env0 2 (bsky_username args0) (bsky_app_password args0) = None \<and>
   (\<exists>out. main env0 args0 = Some out \<and> slept out = [60, 120])"
  using login_backoff [of env0 args0]
  by (simp add: main_cases login_loop.simps env0_def args0_def)

section \<open>The call of \<^verbatim>\<open>make_rich\<close>\<close>

lemma split_on_append:
  "sep \<notin> set a \<Longrightarrow> split_on sep cur (a @ sep # b) = (cur @ a) # split_on sep [] b"
  by (induction a arbitrary: cur) auto

lemma is_html_no_lt: "60 \<notin> set s \<Longrightarrow> \<not> is_html s"
  by (induction s) auto

lemma strip_self: "s \<noteq> [] \<Longrightarrow> \<not> is_space (hd s) \<Longrightarrow> \<not> is_space (last s) \<Longrightarrow> strip s = s"
proof -
  assume a: "s \<noteq> []" "\<not> is_space (hd s)" "\<not> is_space (last s)"
  then have "dropWhile is_space s = s" "dropWhile is_space (rev s) = rev s"
    by (simp_all add: dropWhile_eq_self_iff hd_rev)
  then show ?thesis by (simp add: strip_def)
qed

lemma process_title_hash:
  "0 < n \<Longrightarrow> process_title env (35 # replicate n 97) = 35 # replicate n 97"
proof -
  assume n: "0 < n"
  let ?s = "35 # replicate n (97::nat)"
  have "\<not> is_html ?s" by (rule is_html_no_lt) auto
  moreover have "list_all (\<lambda>c. c < 128) ?s" "38 \<notin> set ?s"
    by (auto simp: list_all_iff)
  ultimately have "process_title env ?s = strip ?s" by (intro process_title_plain)
  moreover have "strip ?s = ?s"
    using n by (intro strip_self) (simp_all add: is_space_def)
  ultimately show ?thesis by simp
qed

lemma line_runs_hash:
  "0 < n \<Longrightarrow> Hashtag (35 # replicate n 97) (replicate n 97) \<in> set (line_runs (35 # replicate n 97))"
proof -
  assume n: "0 < n"
  have al: "is_alnum 97" by (simp add: is_alnum_def)
  have sp: "re_split_tags [] (35 # replicate n 97) = [[], 35 # replicate n 97, []]"
    using n al by (simp add: takeWhile_replicate dropWhile_replicate)
  have st: "strip (replicate n 97) = replicate n 97"
    using al by (intro strip_alnum) (simp add: list_all_iff)
  have "\<not> startswith (35 # replicate n 97) (py ''http'')" by (simp add: str_simps)
  then have "line_runs (35 # replicate n 97)
      = map (segment_run (length (re_split_tags [] (35 # replicate n 97))))
          (enumerate 0 (re_split_tags [] (35 # replicate n 97)))"
    by (rule line_runs_text)
  then show ?thesis unfolding sp by (simp add: segment_run_def st str_simps)
qed

lemma make_rich_call_long:
  "640 < n \<Longrightarrow> make_rich_call ((35 # replicate n 97) @ [10] @ l) = Inl ValidationError"
proof -
  assume n: "640 < n"
  then have "Hashtag (35 # replicate n 97) (replicate n 97) \<in> set (line_runs (35 # replicate n 97))"
    by (intro line_runs_hash) simp
  moreover have "split_on 10 [] ((35 # replicate n 97) @ [10] @ l)
      = (35 # replicate n 97) # split_on 10 [] l"
    using split_on_append [of 10 "35 # replicate n 97" "[]" l] by simp
  ultimately have "Hashtag (35 # replicate n 97) (replicate n 97)
      \<in> set (make_rich ((35 # replicate n 97) @ [10] @ l))"
    by (simp add: make_rich_lines)
  moreover have "tag_refused (Hashtag (35 # replicate n 97) (replicate n 97))"
    using n by (simp add: tag_refused_def)
  ultimately have "list_ex tag_refused (make_rich ((35 # replicate n 97) @ [10] @ l))"
    unfolding list_ex_iff by blast
  then show ?thesis by (simp add: make_rich_call_def)
qed

lemma make_rich_call_long_entry:
  "make_rich_call (post_text env long_entry) = Inl ValidationError"
proof -
  have "process_title env (35 # replicate 641 97) = 35 # replicate 641 97"
    by (rule process_title_hash) simp
  then have "post_text env long_entry = (35 # replicate 641 97) @ [10] @ py ''http://a.test/3''"
    by (simp add: post_text_def long_entry_def long_title_def)
  moreover have "make_rich_call ((35 # replicate 641 97) @ [10] @ py ''http://a.test/3'')
      = Inl ValidationError"
    by (rule make_rich_call_long) simp
  ultimately show ?thesis by (simp only:)
qed

lemma make_rich_call_Inr:
  "make_rich_call content = Inr rich_text \<Longrightarrow> rich_text = make_rich content"
  by (simp add: make_rich_call_def split: if_splits)

lemma process_item_parsed:
  "arrow_get env (published item) = Inr t \<Longrightarrow>
   make_rich_call (post_text env item) = Inr rich_text \<Longrightarrow>
   process_item env last_bsky item = Inr (if last_bsky < t then [submission env item] else [])"
  by (frule make_rich_call_Inr)
     (simp add: process_item_def submission_def post_text_def Let_def)

lemma process_item_refused:
  "arrow_get env (published item) = Inr t \<Longrightarrow> make_rich_call (post_text env item) = Inl e \<Longrightarrow>
   process_item env last_bsky item = Inl e"
  by (simp add: process_item_def post_text_def Let_def)

lemma process_item_calls:
  "process_item env last_bsky item = Inr cs \<Longrightarrow> c \<in> set cs \<Longrightarrow> c = submission env item"
  by (auto simp: process_item_def submission_def post_text_def make_rich_call_def Let_def
      split: sum.splits if_splits)

lemmas builder_defs = make_rich_call_def tag_refused_def post_text_def tokenizer_defs

section \<open>The dedup gate\<close>

lemma first_top_level_none:
  "\<forall>ti\<in>set feed. reason ti \<noteq> None \<or> reply ti \<noteq> None \<Longrightarrow> first_top_level env feed = Inr 0"
  by (induction feed) auto

lemma first_top_level_first:
  "\<forall>ti\<in>set pre. reason ti \<noteq> None \<or> reply ti \<noteq> None \<Longrightarrow> reason x = None \<Longrightarrow> reply x = None \<Longrightarrow>
   first_top_level env (pre @ x # post) = arrow_get env (created_at x)"
  by (induction pre) auto

text \<open>
  Claim C1, as amended. An entry whose timestamp parses and whose rich text is built is
  posted exactly when the timestamp is strictly later than the marker. The marker is the
  creation time of the first item of the author feed that is neither a repost nor a reply,
  and the epoch when there is none; with the epoch as marker such an entry is posted
  exactly when its timestamp is strictly later than the epoch.
\<close>

theorem dedup_gate:
  "(arrow_get env (published item) = Inr t \<and> make_rich_call (post_text env item) = Inr rich_text \<longrightarrow>
      process_item env last_bsky item =
        Inr (if last_bsky < t then [submission env item] else [])) \<and>
   (get_author_feed env handle = Inr (pre @ x # post) \<and>
    (\<forall>ti\<in>set pre. reason ti \<noteq> None \<or> reply ti \<noteq> None) \<and> reason x = None \<and> reply x = None \<longrightarrow>
      get_last_bsky env handle = arrow_get env (created_at x)) \<and>
   (get_author_feed env handle = Inr feed \<and> (\<forall>ti\<in>set feed. reason ti \<noteq> None \<or> reply ti \<noteq> None) \<longrightarrow>
      get_last_bsky env handle = Inr 0) \<and>
   (arrow_get env (published item) = Inr t \<and> make_rich_call (post_text env item) = Inr rich_text \<longrightarrow>
      (process_item env 0 item = Inr [submission env item] \<longleftrightarrow> 0 < t))"
  by (simp add: process_item_parsed get_last_bsky_def first_top_level_none first_top_level_first)

text \<open>
  Claim C1 in the example world: the marker of an account with a repost, a reply and a post
  and of an account without posts; an entry at the marker is not posted, a later one is.
\<close>

theorem dedup_gate_witness:
  "get_last_bsky env0 (py ''old.test'') = Inr 1704067200000000 \<and>
   get_last_bsky env0 (py ''new.test'') = Inr 0 \<and>
   arrow_get env0 (py ''2024-01-01'') = Inr 1704067200000000 \<and>
   process_item env0 1704067200000000
     \<lparr>title = py ''Same'', link = py ''http://a.test/3'', published = py ''2024-01-01''\<rparr> = Inr [] \<and>
   arrow_get env0 (py ''2024-01-02'') = Inr 1704153600000000 \<and>
   process_item env0 1704067200000000
     \<lparr>title = py ''New'', link = py ''http://a.test/3'', published = py ''2024-01-02''\<rparr> =
     Inr [submission env0
       \<lparr>title = py ''New'', link = py ''http://a.test/3'', published = py ''2024-01-02''\<rparr>] \<and>
   process_item env0 0
     \<lparr>title = py ''New'', link = py ''http://a.test/3'', published = py ''2024-01-02''\<rparr> =
     Inr [submission env0
       \<lparr>title = py ''New'', link = py ''http://a.test/3'', published = py ''2024-01-02''\<rparr>]"
proof -
  let ?same = "\<lparr>title = py ''Same'', link = py ''http://a.test/3'', published = py ''2024-01-01''\<rparr>"
  let ?new = "\<lparr>title = py ''New'', link = py ''http://a.test/3'', published = py ''2024-01-02''\<rparr>"
  have s: "make_rich_call (post_text env0 ?same) = Inr (make_rich (post_text env0 ?same))"
    by (simp add: builder_defs sanitizer_defs)
  have n: "make_rich_call (post_text env0 ?new) = Inr (make_rich (post_text env0 ?new))"
    by (simp add: builder_defs sanitizer_defs)
  show ?thesis
    using dedup_gate [of env0 ?same 1704067200000000 "make_rich (post_text env0 ?same)"
        1704067200000000 "py ''old.test''"
        "[\<lparr>reason = Some (py ''repost''), reply = None, created_at = py ''2024-01-03''\<rparr>,
          \<lparr>reason = None, reply = Some (py ''parent''), created_at = py ''2024-01-02''\<rparr>]"
        "\<lparr>reason = None, reply = None, created_at = py ''2024-01-01''\<rparr>" "[]" "[]"]
      dedup_gate [of env0 ?new 1704153600000000 "make_rich (post_text env0 ?new)"
        1704067200000000 "py ''new.test''" "[]"
        "\<lparr>reason = None, reply = None, created_at = py ''2024-01-01''\<rparr>" "[]" "[]"]
    unfolding s n by (simp add: env0_def str_simps)
qed

text \<open>
  Claim C1 as stated fails twice. For an account without posts the marker is the epoch, and
  an entry published at the epoch is not posted. And an entry later than the marker whose
  title is a hashtag of 641 letters is not posted: the builder refuses the tag and the
  exception leaves the loop body before the gate.
\<close>

theorem dedup_gate_cex:
  "get_author_feed env0 (py ''new.test'') = Inr [] \<and>
   get_last_bsky env0 (py ''new.test'') = Inr 0 \<and>
   arrow_get env0 (published epoch_entry) = Inr 0 \<and>
   process_item env0 0 epoch_entry = Inr [] \<and>
   arrow_get env0 (published long_entry) = Inr 1704153600000000 \<and>
   process_item env0 0 long_entry = Inl ValidationError"
proof -
  have a: "arrow_get env0 (published long_entry) = Inr 1704153600000000"
    by (simp add: env0_def long_entry_def str_simps)
  have e: "arrow_get env0 (published epoch_entry) = Inr 0"
    by (simp add: env0_def epoch_entry_def str_simps)
  have "make_rich_call (post_text env0 epoch_entry) = Inr (make_rich (post_text env0 epoch_entry))"
    by (simp add: epoch_entry_def builder_defs sanitizer_defs)
  with e have "process_item env0 0 epoch_entry = Inr []"
    by (simp add: process_item_parsed)
  moreover have "process_item env0 0 long_entry = Inl ValidationError"
    using a make_rich_call_long_entry by (rule process_item_refused)
  moreover have "get_author_feed env0 (py ''new.test'') = Inr []"
      "get_last_bsky env0 (py ''new.test'') = Inr 0"
    by (simp_all add: env0_def get_last_bsky_def)
  ultimately show ?thesis using a e by simp
qed

section \<open>Embeds and the fetcher\<close>

lemma get_image_Some:
  "(\<exists>img. get_image_from_url env u alt_text = Some img) \<longleftrightarrow>
   (\<exists>r b. http_get env u = Inr r \<and> status_code r = 200 \<and> upload_blob env (resp_content r) = Inr b)"
  by (auto simp: get_image_from_url_def split: sum.splits)

lemma fetch_images_not_Nil:
  "fetch_images env tt lm \<noteq> [] \<longleftrightarrow>
   (\<exists>u r b. dict_get lm ''image'' = Some u \<and> u \<noteq> [] \<and> http_get env u = Inr r \<and>
      status_code r = 200 \<and> upload_blob env (resp_content r) = Inr b)"
proof (cases "dict_get lm ''image''")
  case None
  then show ?thesis by (simp add: fetch_images_def truthy_def)
next
  case (Some u)
  show ?thesis
  proof (cases "u = []")
    case True
    with Some show ?thesis by (simp add: fetch_images_def truthy_def)
  next
    case False
    let ?alt = "str_or (Some tt) (str_or (dict_get lm ''title'') (py ''Preview image''))"
    from Some False have "fetch_images env tt lm \<noteq> [] \<longleftrightarrow> (\<exists>img. get_image_from_url env u ?alt = Some img)"
      by (auto simp: fetch_images_def truthy_def str_or_def Let_def split: option.splits)
    with Some False show ?thesis by (simp add: get_image_Some)
  qed
qed

text \<open>
  Claim C5. The embed is an Image embed exactly when the metadata has a non-empty image
  URL, the request for it answers with status 200 and the upload of its bytes succeeds.
  Otherwise it is an ExternalLink embed exactly when the metadata has a non-empty title or a
  non-empty description, with the title replaced by \<^verbatim>\<open>Link\<close> when it is absent or empty and the
  description by the empty string when it is absent; otherwise there is no embed. The block
  behind the gate sends the post with the embed chosen from the metadata fetched for the
  link of the entry, and every call the loop body makes for an entry is that one.
\<close>

theorem embed_selection:
  "((\<exists>imgs. choose_embed env title_text item_link lm = Some (EmbedImages imgs)) \<longleftrightarrow>
      (\<exists>u r b. dict_get lm ''image'' = Some u \<and> u \<noteq> [] \<and> http_get env u = Inr r \<and>
         status_code r = 200 \<and> upload_blob env (resp_content r) = Inr b)) \<and>
   (\<not> (\<exists>u r b. dict_get lm ''image'' = Some u \<and> u \<noteq> [] \<and> http_get env u = Inr r \<and>
         status_code r = 200 \<and> upload_blob env (resp_content r) = Inr b) \<longrightarrow>
      choose_embed env title_text item_link lm =
        (if (\<exists>s. dict_get lm ''title'' = Some s \<and> s \<noteq> []) \<or>
            (\<exists>s. dict_get lm ''description'' = Some s \<and> s \<noteq> [])
         then Some (EmbedExternal item_link
                (case dict_get lm ''title'' of None \<Rightarrow> py ''Link''
                 | Some s \<Rightarrow> if s = [] then py ''Link'' else s)
                (case dict_get lm ''description'' of None \<Rightarrow> [] | Some s \<Rightarrow> s)
                None)
         else None)) \<and>
   (\<exists>outcome. post_entry env title_text rich_text item =
      SendPost rich_text
        (choose_embed env title_text (link item) (fetch_link_metadata env (link item)))
        outcome) \<and>
   (process_item env last_bsky item = Inr cs \<and> c \<in> set cs \<longrightarrow>
      c = post_entry env (process_title env (title item)) (make_rich (post_text env item)) item)"
proof (intro conjI impI)
  let ?img = "\<exists>u r b. dict_get lm ''image'' = Some u \<and> u \<noteq> [] \<and> http_get env u = Inr r \<and>
         status_code r = 200 \<and> upload_blob env (resp_content r) = Inr b"
  have ext: "external_embed item_link lm \<noteq> Some (EmbedImages imgs)" for imgs
    by (simp add: external_embed_def)
  show "(\<exists>imgs. choose_embed env title_text item_link lm = Some (EmbedImages imgs)) \<longleftrightarrow> ?img"
    unfolding fetch_images_not_Nil [of env title_text lm, symmetric]
    using ext by (auto simp: choose_embed_def Let_def)
  show "choose_embed env title_text item_link lm =
        (if (\<exists>s. dict_get lm ''title'' = Some s \<and> s \<noteq> []) \<or>
            (\<exists>s. dict_get lm ''description'' = Some s \<and> s \<noteq> [])
         then Some (EmbedExternal item_link
                (case dict_get lm ''title'' of None \<Rightarrow> py ''Link''
                 | Some s \<Rightarrow> if s = [] then py ''Link'' else s)
                (case dict_get lm ''description'' of None \<Rightarrow> [] | Some s \<Rightarrow> s)
                None)
         else None)" if "\<not> ?img"
  proof -
    from that have "fetch_images env title_text lm = []"
      unfolding fetch_images_not_Nil [of env title_text lm, symmetric] by simp
    then show ?thesis
      by (auto simp: choose_embed_def external_embed_def truthy_def str_or_def
          split: option.splits)
  qed
  show "\<exists>outcome. post_entry env title_text rich_text item =
      SendPost rich_text
        (choose_embed env title_text (link item) (fetch_link_metadata env (link item)))
        outcome"
    by (simp add: post_entry_def Let_def)
  show "c = post_entry env (process_title env (title item)) (make_rich (post_text env item)) item"
    if "process_item env last_bsky item = Inr cs \<and> c \<in> set cs"
    using that process_item_calls [of env last_bsky item cs c] by (simp add: submission_def)
qed

lemmas driver_defs = post_entry_def choose_embed_def fetch_images_def external_embed_def
  get_image_from_url_def fetch_link_metadata_def fetch_link_metadata_try_def raise_for_status_def
  dict_get_def truthy_def str_or_def find_or_def content_of_def page1_def page2_def env0_def
  Let_def str_simps

text \<open>
  Claim C5 in the example world: a page with an image, a page with a title only, a
  metadata with a description only, a page that cannot be fetched, and the post sent for an
  entry whose page cannot be fetched.
\<close>

theorem embed_selection_witness:
  "choose_embed env0 (py ''T'') (py ''http://a.test/1'')
       (fetch_link_metadata env0 (py ''http://a.test/1'')) =
     Some (EmbedImages [\<lparr>alt = py ''T'', image_blob = BlobRef [137, 80, 78, 71]\<rparr>]) \<and>
   choose_embed env0 (py ''T'') (py ''http://a.test/2'')
       (fetch_link_metadata env0 (py ''http://a.test/2'')) =
     Some (EmbedExternal (py ''http://a.test/2'') (py ''Y'') [] None) \<and>
   choose_embed env0 (py ''T'') (py ''http://a.test/2'')
       (Map.empty(''title'' \<mapsto> Some [], ''description'' \<mapsto> Some (py ''D''), ''image'' \<mapsto> None)) =
     Some (EmbedExternal (py ''http://a.test/2'') (py ''Link'') (py ''D'') None) \<and>
   choose_embed env0 (py ''T'') (py ''http://a.test/3'')
       (fetch_link_metadata env0 (py ''http://a.test/3'')) = None \<and>
   process_item env0 0
       \<lparr>title = py ''T'', link = py ''http://a.test/1'', published = py ''2024-01-02''\<rparr> =
     Inr [SendPost [PlainText (py ''T'' @ [10]), Link (py ''http://a.test/1'') (py ''http://a.test/1'')]
            (Some (EmbedImages [\<lparr>alt = py ''T'', image_blob = BlobRef [137, 80, 78, 71]\<rparr>])) None]"
  using embed_selection [of env0 "py ''T''" "py ''http://a.test/1''"
      "fetch_link_metadata env0 (py ''http://a.test/1'')"
      "[PlainText (py ''T'' @ [10]), Link (py ''http://a.test/1'') (py ''http://a.test/1'')]"
      "\<lparr>title = py ''T'', link = py ''http://a.test/1'', published = py ''2024-01-02''\<rparr>"
      0
      "[SendPost [PlainText (py ''T'' @ [10]), Link (py ''http://a.test/1'') (py ''http://a.test/1'')]
            (Some (EmbedImages [\<lparr>alt = py ''T'', image_blob = BlobRef [137, 80, 78, 71]\<rparr>])) None]"
      "SendPost [PlainText (py ''T'' @ [10]), Link (py ''http://a.test/1'') (py ''http://a.test/1'')]
            (Some (EmbedImages [\<lparr>alt = py ''T'', image_blob = BlobRef [137, 80, 78, 71]\<rparr>])) None"]
  by (simp add: process_item_def builder_defs sanitizer_defs driver_defs)

lemma fetch_try_fails:
  "(\<exists>e. fetch_link_metadata_try env url = Inl e) \<longleftrightarrow>
   ((\<exists>e. http_get env url = Inl e) \<or>
    (\<exists>r. http_get env url = Inr r \<and>
       ((\<exists>e. raise_for_status r = Inl e) \<or> (\<exists>e. parse_html env (resp_text r) = Inl e))))"
  by (auto simp: fetch_link_metadata_try_def Let_def split: sum.splits)

lemma choose_embed_empty: "choose_embed env title_text item_link Map.empty = None"
  by (simp add: choose_embed_def fetch_images_def external_embed_def dict_get_def truthy_def)

text \<open>
  Claim C6. The \<^verbatim>\<open>try\<close> block of the fetcher fails exactly when the request, the status
  check or the parse raises; the fetcher then returns the empty dictionary, in which every
  key is absent, the embed chosen from it is none, and the block behind the gate still
  sends the post of the entry, with no embed.
\<close>

theorem fetch_degrades:
  "((\<exists>e. fetch_link_metadata_try env url = Inl e) \<longleftrightarrow>
      ((\<exists>e. http_get env url = Inl e) \<or>
       (\<exists>r. http_get env url = Inr r \<and>
          ((\<exists>e. raise_for_status r = Inl e) \<or> (\<exists>e. parse_html env (resp_text r) = Inl e))))) \<and>
   (fetch_link_metadata_try env url = Inl e \<longrightarrow>
      fetch_link_metadata env url = Map.empty \<and>
      (\<forall>k. dict_get (fetch_link_metadata env url) k = None) \<and>
      choose_embed env title_text item_link (fetch_link_metadata env url) = None) \<and>
   (fetch_link_metadata_try env (link item) = Inl e \<longrightarrow>
      post_entry env title_text rich_text item =
        SendPost rich_text None (send_post env rich_text None))"
  using fetch_try_fails [of env url]
  by (simp add: fetch_link_metadata_def choose_embed_empty dict_get_def post_entry_def Let_def)

text \<open>
  Claim C6 in the example world, for a link whose request raises: the fetcher returns the
  empty dictionary and the loop body sends the entry with no embed.
\<close>

theorem fetch_degrades_witness:
  "http_get env0 (py ''http://a.test/3'') = Inl OtherException \<and>
   fetch_link_metadata_try env0 (py ''http://a.test/3'') = Inl OtherException \<and>
   fetch_link_metadata env0 (py ''http://a.test/3'') = Map.empty \<and>
   process_item env0 0
       \<lparr>title = py ''T'', link = py ''http://a.test/3'', published = py ''2024-01-02''\<rparr> =
     Inr [SendPost [PlainText (py ''T'' @ [10]), Link (py ''http://a.test/3'') (py ''http://a.test/3'')]
            None None]"
  using fetch_degrades [of env0 "py ''http://a.test/3''" OtherException "py ''T''" "[]"
      "\<lparr>title = py ''T'', link = py ''http://a.test/3'', published = py ''2024-01-02''\<rparr>"
      "[PlainText (py ''T'' @ [10]), Link (py ''http://a.test/3'') (py ''http://a.test/3'')]"]
  by (simp add: process_item_def builder_defs sanitizer_defs fetch_link_metadata_try_def env0_def)

section \<open>Submission\<close>






section \<open>The normalizer\<close>


lemma detect_text_raises:
  "detect_text env bs = Inl e \<Longrightarrow> \<not> is_ValueError e \<Longrightarrow> from_bytes_best env bs = Inl e"
  by (auto simp: detect_text_def split: sum.splits option.splits)




end
